theory Spec2Isabelle
  imports Complex_Main "HOL-Library.Sublist"
begin

section \<open>The progressive PDF preview engine (class PdfPreview)\<close>

text \<open>
  A shallow embedding of the class \<^verbatim>\<open>PdfPreview\<close> and of \<^verbatim>\<open>renderPdf\<close>.
  The mutable fields of the class become one record that every method takes and
  returns. What the browser and the document library decide (whether a page can be
  fetched, whether a drawing context exists, whether a render is rejected, the layout
  extents) is read from a record of capabilities, one per operation.

  Modelling decisions:
  \<^item> each asynchronous method runs to completion before the next event is handled
    (the single-threaded model of the source, with no interleaving inside a method);
  \<^item> page numbers and layout extents are integers; the one expression of the source
    whose value may be \<^verbatim>\<open>NaN\<close> or \<^verbatim>\<open>undefined\<close> (the device scale) has a type of its own;
  \<^item> the optional callbacks \<^verbatim>\<open>onLoad\<close> and \<^verbatim>\<open>onError\<close> record the message they
    receive and do not throw;
  \<^item> the console line \<^verbatim>\<open>Getting PDF page: n\<close>, which \<^verbatim>\<open>getPdfPage\<close> prints first,
    is kept as the list of page numbers requested.
\<close>

subsection \<open>Data\<close>

text \<open>A JavaScript number as far as the device scale needs it.\<close>

datatype jsnum = Undefined | NaN | Num real

datatype data_val = Null | Doc int | Page int

text \<open>The interface \<^verbatim>\<open>BaseReturn\<close>.\<close>

record BaseReturn =
  success :: bool
  data :: data_val
  message :: "string option"

text \<open>
  A canvas is created blank and appended at once; its pixel size is set when a
  drawing context was obtained; it is painted when the render promise resolved.
\<close>

datatype canvas_status = Blank | Sized | Painted

text \<open>The wrapper \<^verbatim>\<open>div\<close> that \<^verbatim>\<open>getPdfPage\<close> appends to the page container.\<close>

record PageWrapper =
  dataPageNumber :: int
  scaleUsed :: jsnum
  hasDivider :: bool
  canvas :: canvas_status

text \<open>
  The children of the mount element \<^verbatim>\<open>this.dom\<close>: whatever was there before, and the
  flex container that the constructor appends (it holds the page container, the
  controls, the outline panel and the loading indicator).
\<close>

datatype dom_child = OtherNode string | ContainerDiv

record PdfPreview =
  pdfDoc :: "int option"
  pageNumber :: int
  total :: int
  domChildren :: "dom_child list"
  scrollTop :: int
  onErrorGiven :: bool
  errorLog :: "BaseReturn list"
  onLoadGiven :: bool
  loadLog :: "BaseReturn list"
  pageContainer :: "PageWrapper list"
  pageIndicator :: "(int \<times> int) option"
  loadingDisplay :: bool
  isLoading :: bool
  observed :: "int list"
  visiblePages :: "int list"
  requests :: "int list"

text \<open>
  What the environment answers during one operation. \<open>getPage n\<close> and
  \<open>renderPage n\<close> give the message of the rejection, if any; \<open>getContext n\<close> says
  whether the canvas of page \<open>n\<close> yields a 2-D context; \<open>scrollHeight\<close> is the
  scroll extent of the page container as a function of its content.
\<close>

record env =
  isSafari :: bool
  devicePixelRatio :: jsnum
  getPage :: "int \<Rightarrow> string option"
  getContext :: "int \<Rightarrow> bool"
  renderPage :: "int \<Rightarrow> string option"
  scrollHeight :: "PageWrapper list \<Rightarrow> int"
  clientHeight :: int
  domScrollHeight :: int

subsection \<open>The constructor, the loading flag\<close>

text \<open>
  \<^verbatim>\<open>RenderOptions\<close>: the children of the mount element when one is given, and whether
  each callback is given.
\<close>

record RenderOptions =
  optDom :: "dom_child list option"
  onError :: bool
  onLoad :: bool

definition constructor :: "dom_child list \<Rightarrow> RenderOptions \<Rightarrow> PdfPreview" where
  "constructor mount options =
     \<lparr>pdfDoc = None, pageNumber = 0, total = 0,
      domChildren = mount @ [ContainerDiv], scrollTop = 0,
      onErrorGiven = onError options, errorLog = [],
      onLoadGiven = onLoad options, loadLog = [],
      pageContainer = [], pageIndicator = None, loadingDisplay = False,
      isLoading = False, observed = [], visiblePages = [], requests = []\<rparr>"

definition showLoading :: "PdfPreview \<Rightarrow> PdfPreview" where
  "showLoading s = s\<lparr>loadingDisplay := True, isLoading := True\<rparr>"

definition hideLoading :: "PdfPreview \<Rightarrow> PdfPreview" where
  "hideLoading s = s\<lparr>loadingDisplay := False, isLoading := False\<rparr>"

subsection \<open>Rendering one page\<close>

text \<open>\<^verbatim>\<open>Math.min(x, 2)\<close>: an undefined argument converts to \<^verbatim>\<open>NaN\<close>, and \<^verbatim>\<open>NaN\<close> wins.\<close>

fun mathMin2 :: "jsnum \<Rightarrow> jsnum" where
  "mathMin2 (Num r) = Num (min r 2)"
| "mathMin2 NaN = NaN"
| "mathMin2 Undefined = NaN"

text \<open>\<^verbatim>\<open>x || 1\<close>: \<^verbatim>\<open>undefined\<close>, \<^verbatim>\<open>NaN\<close> and \<^verbatim>\<open>0\<close> are falsy.\<close>

fun orOne :: "jsnum \<Rightarrow> jsnum" where
  "orOne (Num r) = (if r = 0 then Num 1 else Num r)"
| "orOne NaN = Num 1"
| "orOne Undefined = Num 1"

text \<open>
  \<^verbatim>\<open>isSafari() ? Math.min(window.devicePixelRatio, 2) : window.devicePixelRatio || 1\<close>:
  the conditional binds weaker than \<^verbatim>\<open>||\<close>, so the default belongs to the else branch.
\<close>

definition deviceScale :: "bool \<Rightarrow> jsnum \<Rightarrow> jsnum" where
  "deviceScale safari dpr = (if safari then mathMin2 dpr else orOne dpr)"

text \<open>The \<^verbatim>\<open>catch\<close> block of \<^verbatim>\<open>getPdfPage\<close>.\<close>

definition pageFailure :: "string \<Rightarrow> PdfPreview \<Rightarrow> BaseReturn \<times> PdfPreview" where
  "pageFailure msg s =
     (let r = \<lparr>success = False, data = Null, message = Some msg\<rparr>
      in (r, if onErrorGiven s then s\<lparr>errorLog := errorLog s @ [r]\<rparr> else s))"

definition getPdfPage :: "env \<Rightarrow> PdfPreview \<Rightarrow> int \<Rightarrow> BaseReturn \<times> PdfPreview" where
  "getPdfPage e s0 number =
     (let s = s0\<lparr>requests := requests s0 @ [number]\<rparr> in
      if pdfDoc s = None
      then (\<lparr>success = False, data = Null, message = Some ''pdfDoc is undefined''\<rparr>, s)
      else
        (case getPage e number of
           Some msg \<Rightarrow> pageFailure msg s
         | None \<Rightarrow>
            (let w = \<lparr>dataPageNumber = number,
                      scaleUsed = deviceScale (isSafari e) (devicePixelRatio e),
                      hasDivider = (number < total s),
                      canvas = Blank\<rparr>;
                 appended = (\<lambda>c. s\<lparr>pageContainer := pageContainer s @ [w\<lparr>canvas := c\<rparr>],
                                      observed := observed s @ [number]\<rparr>)
             in if \<not> getContext e number
                then pageFailure ''Failed to get canvas context'' (appended Blank)
                else
                  (case renderPage e number of
                     Some msg \<Rightarrow> pageFailure msg (appended Sized)
                   | None \<Rightarrow>
                       (\<lparr>success = True, data = Page number, message = None\<rparr>,
                        appended Painted)))))"

subsection \<open>Scroll continuation\<close>

definition renderNextPage :: "env \<Rightarrow> PdfPreview \<Rightarrow> PdfPreview" where
  "renderNextPage e s =
     (if isLoading s \<or> pageNumber s \<ge> total s then s
      else
        (let s1 = s\<lparr>isLoading := True\<rparr>;
             nextPageToRender = pageNumber s1 + 1;
             s2 = snd (getPdfPage e s1 nextPageToRender)
         in s2\<lparr>pageNumber := nextPageToRender, isLoading := False\<rparr>))"

definition handleScroll :: "env \<Rightarrow> PdfPreview \<Rightarrow> PdfPreview" where
  "handleScroll e s =
     (if isLoading s \<or> pageNumber s \<ge> total s then s
      else if scrollTop s + clientHeight e \<ge> domScrollHeight e - 200
           then renderNextPage e s
           else s)"

subsection \<open>Navigation\<close>

text \<open>
  \<^verbatim>\<open>for (let i = startPage; i <= endPage && i <= this.total; i++)\<close>: the result of
  \<^verbatim>\<open>getPdfPage\<close> is dropped; the pause between two pages changes no field.
\<close>

function renderPagesBatch :: "env \<Rightarrow> PdfPreview \<Rightarrow> int \<Rightarrow> int \<Rightarrow> PdfPreview" where
  "renderPagesBatch e s i endPage =
     (if i \<le> endPage \<and> i \<le> total s
      then renderPagesBatch e (snd (getPdfPage e s i)) (i + 1) endPage
      else s)"
  by pat_completeness auto
termination
  by (relation "measure (\<lambda>(e, s, i, endPage). nat (endPage + 1 - i))") auto

declare renderPagesBatch.simps [simp del]

text \<open>
  \<^verbatim>\<open>Math.ceil((clientHeight - scrollHeight) / (scrollHeight / initialBatchSize))\<close>
  capped by the pages left. The expression is evaluated only when
  \<open>sh < ch\<close>; with an empty container (\<open>sh = 0\<close>) the quotient is
  \<^verbatim>\<open>Infinity\<close> and the minimum is its other argument. Rounding of the floating-point
  quotient is not modelled.
\<close>

definition remainingPages :: "int \<Rightarrow> int \<Rightarrow> int \<Rightarrow> int \<Rightarrow> int \<Rightarrow> int" where
  "remainingPages tot pageNum initialBatchSize ch sh =
     (if sh = 0 then tot - (pageNum + initialBatchSize)
      else min (tot - (pageNum + initialBatchSize))
               \<lceil>real_of_int (ch - sh) / (real_of_int sh / real_of_int initialBatchSize)\<rceil>)"

definition navigateToPage :: "env \<Rightarrow> PdfPreview \<Rightarrow> int \<Rightarrow> PdfPreview" where
  "navigateToPage e s pageNum =
     (if pageNum < 1 \<or> pageNum > total s \<or> pdfDoc s = None \<or> isLoading s then s
      else
        (let s1 = showLoading s;
             s2 = s1\<lparr>pageContainer := [], observed := [], visiblePages := []\<rparr>;
             s3 = s2\<lparr>pageNumber := pageNum - 1, scrollTop := 0\<rparr>;
             initialBatchSize = 3;
             s4 = renderPagesBatch e s3 pageNum (pageNum + initialBatchSize - 1);
             sh = scrollHeight e (pageContainer s4);
             s5 = (if sh < clientHeight e
                   then (let r = remainingPages (total s4) pageNum initialBatchSize
                                   (clientHeight e) sh
                         in if r > 0
                            then renderPagesBatch e s4 (pageNum + initialBatchSize)
                                   (pageNum + initialBatchSize + r - 1)
                            else s4)
                   else s4)
         in hideLoading s5))"

subsection \<open>Visibility tracking\<close>

text \<open>
  The \<^verbatim>\<open>Set\<close> of visible pages is the list of its elements in insertion order.
  An entry is the page number parsed from the target's \<^verbatim>\<open>data-page-number\<close>
  attribute (\<open>0\<close> when the attribute is absent or not a number: both are falsy) and
  the flag \<^verbatim>\<open>isIntersecting\<close>.
\<close>

definition setAdd :: "int \<Rightarrow> int list \<Rightarrow> int list" where
  "setAdd x xs = (if x \<in> set xs then xs else xs @ [x])"

definition setDelete :: "int \<Rightarrow> int list \<Rightarrow> int list" where
  "setDelete x xs = removeAll x xs"

definition visitEntry :: "int \<times> bool \<Rightarrow> int list \<Rightarrow> int list" where
  "visitEntry entry vis =
     (let pageNum = fst entry in
      if pageNum = 0 then vis
      else if snd entry then setAdd pageNum vis
      else setDelete pageNum vis)"

text \<open>\<^verbatim>\<open>Math.max(...xs)\<close> of a list that is not empty.\<close>

fun mathMax :: "int list \<Rightarrow> int option" where
  "mathMax [] = None"
| "mathMax (x # xs) = Some (fold max xs x)"

definition updatePageIndicator :: "int \<Rightarrow> PdfPreview \<Rightarrow> PdfPreview" where
  "updatePageIndicator currentPage s =
     (if total s > 0 then s\<lparr>pageIndicator := Some (currentPage, total s)\<rparr> else s)"

definition handlePageIntersection :: "(int \<times> bool) list \<Rightarrow> PdfPreview \<Rightarrow> PdfPreview" where
  "handlePageIntersection entries s =
     (let s1 = s\<lparr>visiblePages := fold visitEntry entries (visiblePages s)\<rparr>
      in case mathMax (visiblePages s1) of
           None \<Rightarrow> s1
         | Some currentPage \<Rightarrow> updatePageIndicator currentPage s1)"

subsection \<open>Opening the document\<close>

text \<open>
  The \<^verbatim>\<open>while\<close> loop of \<^verbatim>\<open>pdfPreview\<close>. Its condition does not read the loading
  flag, and \<^verbatim>\<open>renderNextPage\<close> does nothing while the flag is set: the loop need not
  end, so it is a partial function.
\<close>

definition fillMore :: "env \<Rightarrow> PdfPreview \<Rightarrow> bool" where
  "fillMore e s \<longleftrightarrow>
     pageNumber s < total s \<and>
     (scrollHeight e (pageContainer s) < clientHeight e \<or> pageNumber s = 0)"

partial_function (option) initialFill :: "env \<Rightarrow> PdfPreview \<Rightarrow> PdfPreview option" where
  "initialFill e s =
     (if fillMore e s then initialFill e (renderNextPage e s) else Some s)"

text \<open>
  How loading the document ends: the worker URL cannot be built (a synchronous
  throw), the loading task rejects, or a document with so many pages arrives. The
  string is the message that the handler passes on (the text of an \<^verbatim>\<open>Error\<close>, or
  what the handler puts in its place for any other value).
\<close>

datatype load_outcome = WorkerUrlThrows string | GetDocumentRejects string | Loaded int

datatype 'a settled = Resolved 'a | Rejected 'a

definition reportError :: "string \<Rightarrow> PdfPreview \<Rightarrow> PdfPreview" where
  "reportError msg s =
     (if onErrorGiven s
      then s\<lparr>errorLog := errorLog s @ [\<lparr>success = False, data = Null, message = Some msg\<rparr>]\<rparr>
      else s)"

text \<open>
  The statements of the \<^verbatim>\<open>then\<close> callback before the loop. The call of
  \<^verbatim>\<open>renderOutline\<close>, which is not awaited, builds the outline panel only; the
  outline is modelled on its own below.
\<close>

definition documentLoaded :: "int \<Rightarrow> PdfPreview \<Rightarrow> PdfPreview" where
  "documentLoaded numPages s =
     (let s1 = s\<lparr>pdfDoc := Some numPages, total := numPages\<rparr>;
          s2 = (if onLoadGiven s1
                then s1\<lparr>loadLog := loadLog s1 @
                          [\<lparr>success = True, data = Doc numPages, message = None\<rparr>]\<rparr>
                else s1)
      in updatePageIndicator 1 s2)"

definition pdfPreview ::
  "env \<Rightarrow> load_outcome \<Rightarrow> PdfPreview \<Rightarrow> (BaseReturn settled \<times> PdfPreview) option" where
  "pdfPreview e outcome s =
     (case outcome of
        WorkerUrlThrows msg \<Rightarrow>
          Some (Rejected \<lparr>success = False, data = Null, message = Some msg\<rparr>,
                reportError msg s)
      | GetDocumentRejects msg \<Rightarrow>
          Some (Rejected \<lparr>success = False, data = Null, message = Some msg\<rparr>,
                reportError msg s)
      | Loaded numPages \<Rightarrow>
          (case initialFill e (documentLoaded numPages s) of
             None \<Rightarrow> None
           | Some s' \<Rightarrow>
               Some (Resolved \<lparr>success = True, data = Doc numPages, message = None\<rparr>, s')))"

subsection \<open>The function renderPdf\<close>

text \<open>
  What \<^verbatim>\<open>renderPdf\<close> finds around it: whether \<^verbatim>\<open>window\<close> exists, and how reading
  the file ends.
\<close>

datatype read_outcome = ReaderRejects | ReaderNull | ReaderResult

record host =
  windowDefined :: bool
  reader :: read_outcome

text \<open>
  The \<^verbatim>\<open>try\<close> block of \<^verbatim>\<open>renderPdf\<close>. A throw before the instance exists carries
  the message that the handler will report (the text of an \<^verbatim>\<open>Error\<close>, the fixed text
  for any other value); a rejection of \<^verbatim>\<open>pdfPreview\<close> carries the instance as well.
\<close>

datatype renderPdf_thrown = BeforeInstance string | FromPreview PdfPreview

definition renderPdfBody ::
  "env \<Rightarrow> host \<Rightarrow> load_outcome \<Rightarrow> RenderOptions \<Rightarrow> (renderPdf_thrown + PdfPreview) option" where
  "renderPdfBody e h outcome options =
     (if \<not> windowDefined h then Some (Inl (BeforeInstance ''Window is undefined''))
      else
        (case reader h of
           ReaderRejects \<Rightarrow> Some (Inl (BeforeInstance ''Failed to render PDF''))
         | ReaderNull \<Rightarrow> Some (Inl (BeforeInstance ''Failed to read PDF file''))
         | ReaderResult \<Rightarrow>
             (case optDom options of
                None \<Rightarrow> Some (Inl (BeforeInstance ''DOM element not provided''))
              | Some mount \<Rightarrow>
                  (case pdfPreview e outcome (constructor mount options) of
                     None \<Rightarrow> None
                   | Some (Rejected r, s) \<Rightarrow> Some (Inl (FromPreview s))
                   | Some (Resolved r, s) \<Rightarrow> Some (Inr s)))))"

text \<open>
  What is left when \<^verbatim>\<open>renderPdf\<close> has returned: without an instance, the messages
  handed to \<^verbatim>\<open>onError\<close>; otherwise the instance (its error log is that of the same
  callback). The promise of \<^verbatim>\<open>renderPdf\<close> itself never rejects.
\<close>

datatype renderPdf_result = NoInstance "BaseReturn list" | Instance PdfPreview

definition renderPdf ::
  "env \<Rightarrow> host \<Rightarrow> load_outcome \<Rightarrow> RenderOptions \<Rightarrow> renderPdf_result option" where
  "renderPdf e h outcome options =
     (case renderPdfBody e h outcome options of
        None \<Rightarrow> None
      | Some (Inr s) \<Rightarrow> Some (Instance s)
      | Some (Inl (BeforeInstance msg)) \<Rightarrow>
          Some (NoInstance
            (if onError options
             then [\<lparr>success = False, data = Null, message = Some msg\<rparr>] else []))
      | Some (Inl (FromPreview s)) \<Rightarrow>
          Some (Instance (reportError ''Failed to render PDF'' s)))"

subsection \<open>Events\<close>

text \<open>
  A scroll event carries the new scroll offset of the mount element; a navigation
  carries the target page; an intersection update carries its entries. Each event is
  handled under the environment that comes with it.
\<close>

datatype event = Scroll int | Navigate int | Intersect "(int \<times> bool) list"

fun step :: "env \<Rightarrow> event \<Rightarrow> PdfPreview \<Rightarrow> PdfPreview" where
  "step e (Scroll offset) s = handleScroll e (s\<lparr>scrollTop := offset\<rparr>)"
| "step e (Navigate n) s = navigateToPage e s n"
| "step e (Intersect entries) s = handlePageIntersection entries s"

fun run :: "PdfPreview \<Rightarrow> (env \<times> event) list \<Rightarrow> PdfPreview" where
  "run s [] = s"
| "run s ((e, ev) # evs) = run (step e ev s) evs"

text \<open>The state after each event, in order.\<close>

fun trace :: "PdfPreview \<Rightarrow> (env \<times> event) list \<Rightarrow> PdfPreview list" where
  "trace s [] = []"
| "trace s ((e, ev) # evs) = step e ev s # trace (step e ev s) evs"

text \<open>
  The observer reports only canvases it observes: an intersection update can be
  delivered when each target carries the page number of an observed canvas.
\<close>

fun deliverable :: "PdfPreview \<Rightarrow> event \<Rightarrow> bool" where
  "deliverable s (Intersect entries) = list_all (\<lambda>entry. fst entry \<in> set (observed s)) entries"
| "deliverable s ev = True"

fun deliverableRun :: "PdfPreview \<Rightarrow> (env \<times> event) list \<Rightarrow> bool" where
  "deliverableRun s [] = True"
| "deliverableRun s ((e, ev) # evs) = (deliverable s ev \<and> deliverableRun (step e ev s) evs)"

fun isNavigate :: "event \<Rightarrow> bool" where
  "isNavigate (Navigate n) = True"
| "isNavigate ev = False"

subsection \<open>Outline search\<close>

text \<open>
  A string is the list of its code units, of any type \<open>'c\<close>;
  \<^verbatim>\<open>String.prototype.includes\<close> compares code units. The methods
  \<^verbatim>\<open>String.prototype.toLowerCase\<close> and \<^verbatim>\<open>String.prototype.trim\<close> belong to the
  JavaScript runtime and not to this program: they are taken as parameters, so that
  what is proved holds for the case mapping and the white space of the runtime,
  whatever they are.
\<close>

record 'c strings =
  toLowerCase :: "'c list \<Rightarrow> 'c list"
  trim :: "'c list \<Rightarrow> 'c list"

text \<open>
  An outline entry as \<^verbatim>\<open>createOutlineItem\<close> builds it: a list item with a title
  span, its \<^verbatim>\<open>display\<close> style (\<open>True\<close> for the empty string, \<open>False\<close> for
  \<^verbatim>\<open>none\<close>) and, when there are sub-items, a list of them.
\<close>

datatype 'c toc_item =
  TocItem (title: "'c list") (shown: bool) (subItems: "'c toc_item list")

fun includes_str :: "'c list \<Rightarrow> 'c list \<Rightarrow> bool" where
  "includes_str [] needle = (needle = [])"
| "includes_str (c # cs) needle = (prefix needle (c # cs) \<or> includes_str cs needle)"

fun filterTocItem :: "'c strings \<Rightarrow> 'c list \<Rightarrow> 'c toc_item \<Rightarrow> 'c toc_item \<times> bool" where
  "filterTocItem js searchText (TocItem t d subs) =
     (let ownTextMatch = includes_str (toLowerCase js t) searchText;
          results = map (filterTocItem js searchText) subs;
          childMatch = list_ex snd results;
          shouldBeVisible = (ownTextMatch \<or> childMatch)
      in (TocItem t shouldBeVisible (map fst results), shouldBeVisible))"

text \<open>
  \<^verbatim>\<open>handleTocSearch\<close> reads the input, lower-cases and then trims it, and filters
  each top-level item; without a list it returns at once.
\<close>

definition handleTocSearch ::
  "'c strings \<Rightarrow> 'c list \<Rightarrow> 'c toc_item list option \<Rightarrow> 'c toc_item list option" where
  "handleTocSearch js inputValue tocList =
     (let searchText = trim js (toLowerCase js inputValue)
      in case tocList of
           None \<Rightarrow> None
         | Some lis \<Rightarrow> Some (map (\<lambda>item. fst (filterTocItem js searchText item)) lis))"

text \<open>All entries of a subtree, the root first; the entries strictly below a root.\<close>

fun nodes :: "'c toc_item \<Rightarrow> 'c toc_item list" where
  "nodes (TocItem t d subs) = TocItem t d subs # concat (map nodes subs)"

definition descendants :: "'c toc_item \<Rightarrow> 'c toc_item list" where
  "descendants item = concat (map nodes (subItems item))"

text \<open>The tree without its display styles.\<close>

fun shapeOf :: "'c toc_item \<Rightarrow> 'c toc_item" where
  "shapeOf (TocItem t d subs) = TocItem t True (map shapeOf subs)"

text \<open>
  The title contains the query as a case-insensitive substring: lower-cased, the
  query is a run of consecutive code units of the lower-cased title.
\<close>

definition containsIgnoringCase :: "'c strings \<Rightarrow> 'c list \<Rightarrow> 'c list \<Rightarrow> bool" where
  "containsIgnoringCase js t query \<longleftrightarrow> sublist (toLowerCase js query) (toLowerCase js t)"

text \<open>
  On strings of ASCII characters the two methods of the runtime are these: the
  letters \<open>A\<close> to \<open>Z\<close> are mapped to \<open>a\<close> to \<open>z\<close>, and the white space is the
  blank and the control characters 9 to 13. They serve the concrete outlines
  below, whose titles and queries are ASCII.
\<close>

definition lowerChar :: "char \<Rightarrow> char" where
  "lowerChar c =
     (case map_of (zip ''ABCDEFGHIJKLMNOPQRSTUVWXYZ'' ''abcdefghijklmnopqrstuvwxyz'') c of
        Some l \<Rightarrow> l
      | None \<Rightarrow> c)"

definition isSpace :: "char \<Rightarrow> bool" where
  "isSpace c = ((of_char c :: nat) \<in> {9, 10, 11, 12, 13, 32})"

definition asciiStrings :: "char strings" where
  "asciiStrings =
     \<lparr>toLowerCase = map lowerChar,
      trim = (\<lambda>str. rev (dropWhile isSpace (rev (dropWhile isSpace str))))\<rparr>"

subsection \<open>An invariant of the visibility data\<close>

text \<open>
  The cursor is not negative, every visible page is the page of an observed canvas,
  and a canvas is observed only while the document has pages.
\<close>

definition tracked :: "PdfPreview \<Rightarrow> bool" where
  "tracked s \<longleftrightarrow>
     0 \<le> pageNumber s \<and> set (visiblePages s) \<subseteq> set (observed s) \<and>
     (observed s \<noteq> [] \<longrightarrow> 0 < total s)"

subsection \<open>A concrete session\<close>

text \<open>
  Every page is 400 units high in a viewport of 1000; every page can be fetched
  and has a context; the render of page 1 is rejected.
\<close>

definition exampleEnv :: env where
  "exampleEnv =
     \<lparr>isSafari = False, devicePixelRatio = Num 2,
      getPage = (\<lambda>n. None), getContext = (\<lambda>n. True),
      renderPage = (\<lambda>n. if n = 1 then Some ''render cancelled'' else None),
      scrollHeight = (\<lambda>ws. 400 * int (length ws)), clientHeight = 1000,
      domScrollHeight = 1200\<rparr>"


definition exampleOptions :: RenderOptions where
  "exampleOptions = \<lparr>optDom = Some [], onError = True, onLoad = False\<rparr>"

definition exampleHost :: host where
  "exampleHost = \<lparr>windowDefined = True, reader = ReaderResult\<rparr>"

text \<open>The instance when a document of five pages has arrived, before the first page.\<close>

definition exampleLoaded :: PdfPreview where
  "exampleLoaded = documentLoaded 5 (constructor [] exampleOptions)"

definition exampleEvents :: "(env \<times> event) list" where
  "exampleEvents =
     [(exampleEnv, Scroll 0), (exampleEnv, Scroll 300), (exampleEnv, Navigate 2),
      (exampleEnv, Intersect [(2, True), (3, True)]), (exampleEnv, Navigate 9)]"

text \<open>The instance when the initial fill of that document has ended.\<close>

definition exampleOpened :: PdfPreview where
  "exampleOpened =
     \<lparr>pdfDoc = Some 5, pageNumber = 3, total = 5, domChildren = [ContainerDiv],
      scrollTop = 0, onErrorGiven = True,
      errorLog = [\<lparr>success = False, data = Null, message = Some ''render cancelled''\<rparr>],
      onLoadGiven = False, loadLog = [],
      pageContainer =
        [\<lparr>dataPageNumber = 1, scaleUsed = Num 2, hasDivider = True, canvas = Sized\<rparr>,
         \<lparr>dataPageNumber = 2, scaleUsed = Num 2, hasDivider = True, canvas = Painted\<rparr>,
         \<lparr>dataPageNumber = 3, scaleUsed = Num 2, hasDivider = True, canvas = Painted\<rparr>],
      pageIndicator = Some (1, 5), loadingDisplay = False, isLoading = False,
      observed = [1, 2, 3], visiblePages = [], requests = [1, 2, 3]\<rparr>"

text \<open>Events without a navigation, and an outline three levels deep.\<close>

definition exampleScrolls :: "(env \<times> event) list" where
  "exampleScrolls =
     [(exampleEnv, Scroll 0), (exampleEnv, Intersect [(2, True), (3, True), (1, True)]),
      (exampleEnv, Scroll 300)]"

definition exampleOutline :: "char toc_item list" where
  "exampleOutline =
     [TocItem ''Part One'' True
        [TocItem ''Basics'' True [TocItem ''Install Guide'' True []],
         TocItem ''History'' True []],
      TocItem ''Part Two'' True [TocItem ''Appendix'' True []]]"

definition exampleFiltered :: "char toc_item list" where
  "exampleFiltered =
     [TocItem ''Part One'' True
        [TocItem ''Basics'' True [TocItem ''Install Guide'' True []],
         TocItem ''History'' False []],
      TocItem ''Part Two'' False [TocItem ''Appendix'' False []]]"

section \<open>Auxiliary facts\<close>

text \<open>The definitions that evaluating a concrete session unfolds.\<close>

lemmas eval_defs = exampleEnv_def exampleOptions_def exampleHost_def exampleLoaded_def
  exampleEvents_def constructor_def documentLoaded_def updatePageIndicator_def fillMore_def
  renderNextPage_def getPdfPage_def pageFailure_def deviceScale_def Let_def pdfPreview_def
  reportError_def handleScroll_def navigateToPage_def showLoading_def hideLoading_def
  handlePageIntersection_def visitEntry_def setAdd_def setDelete_def remainingPages_def
  renderPdf_def renderPdfBody_def

subsection \<open>What one page render leaves unchanged\<close>

lemma getPdfPage_frame:
  "isLoading (snd (getPdfPage e s n)) = isLoading s"
  "pageNumber (snd (getPdfPage e s n)) = pageNumber s"
  "total (snd (getPdfPage e s n)) = total s"
  "pdfDoc (snd (getPdfPage e s n)) = pdfDoc s"
  "domChildren (snd (getPdfPage e s n)) = domChildren s"
  "visiblePages (snd (getPdfPage e s n)) = visiblePages s"
  "scrollTop (snd (getPdfPage e s n)) = scrollTop s"
  "pageIndicator (snd (getPdfPage e s n)) = pageIndicator s"
  "onErrorGiven (snd (getPdfPage e s n)) = onErrorGiven s"
  "requests (snd (getPdfPage e s n)) = requests s @ [n]"
  by (simp_all add: getPdfPage_def pageFailure_def Let_def split: option.splits)

lemma getPdfPage_container:
  "prefix (pageContainer s) (pageContainer (snd (getPdfPage e s n)))"
  by (simp add: getPdfPage_def pageFailure_def Let_def split: option.splits)

lemma getPdfPage_observed:
  "observed (snd (getPdfPage e s n)) = observed s \<or> observed (snd (getPdfPage e s n)) = observed s @ [n]"
  by (simp add: getPdfPage_def pageFailure_def Let_def split: option.splits)

lemma batch_frame:
  "total (renderPagesBatch e s i j) = total s \<and>
   isLoading (renderPagesBatch e s i j) = isLoading s \<and>
   pageNumber (renderPagesBatch e s i j) = pageNumber s \<and>
   pdfDoc (renderPagesBatch e s i j) = pdfDoc s \<and>
   visiblePages (renderPagesBatch e s i j) = visiblePages s \<and>
   domChildren (renderPagesBatch e s i j) = domChildren s"
proof (induction e s i j rule: renderPagesBatch.induct)
  case (1 e s i j)
  show ?case
  proof (cases "i \<le> j \<and> i \<le> total s")
    case True
    with 1 show ?thesis
      by (subst (1 2 3 4 5 6) renderPagesBatch.simps) (simp add: getPdfPage_frame)
  next
    case False
    then show ?thesis by (subst (1 2 3 4 5 6) renderPagesBatch.simps) auto
  qed
qed

lemma batch_requests:
  "requests (renderPagesBatch e s i j) = requests s @ [i..min j (total s)]"
proof (induction e s i j rule: renderPagesBatch.induct)
  case (1 e s i j)
  show ?case
  proof (cases "i \<le> j \<and> i \<le> total s")
    case True
    then have "[i..min j (total s)] = i # [i + 1..min j (total s)]"
      by (simp add: upto_rec1)
    with True 1 show ?thesis
      by (subst renderPagesBatch.simps) (simp add: getPdfPage_frame)
  next
    case False
    then show ?thesis by (subst renderPagesBatch.simps) auto
  qed
qed

lemma batch_container:
  "prefix (pageContainer s) (pageContainer (renderPagesBatch e s i j))"
proof (induction e s i j rule: renderPagesBatch.induct)
  case (1 e s i j)
  show ?case
  proof (cases "i \<le> j \<and> i \<le> total s")
    case True
    with 1 have "prefix (pageContainer (snd (getPdfPage e s i))) (pageContainer (renderPagesBatch e s i j))"
      by (subst renderPagesBatch.simps) simp
    then show ?thesis
      using getPdfPage_container [of s e i] prefix_order.order_trans by blast
  next
    case False
    then show ?thesis by (subst renderPagesBatch.simps) auto
  qed
qed

subsection \<open>The loading flag and the initial fill\<close>

lemma renderNextPage_idle:
  "\<not> isLoading s \<Longrightarrow> \<not> isLoading (renderNextPage e s)"
  by (simp add: renderNextPage_def Let_def)

lemma renderNextPage_skip:
  "isLoading s \<or> total s \<le> pageNumber s \<Longrightarrow> renderNextPage e s = s"
  by (auto simp: renderNextPage_def)

lemma renderNextPage_run:
  assumes "\<not> isLoading s" "pageNumber s < total s"
  shows "pageNumber (renderNextPage e s) = pageNumber s + 1"
    and "requests (renderNextPage e s) = requests s @ [pageNumber s + 1]"
    and "total (renderNextPage e s) = total s"
  using assms by (simp_all add: renderNextPage_def Let_def getPdfPage_frame)

lemma navigateToPage_idle:
  "\<not> isLoading s \<Longrightarrow> \<not> isLoading (navigateToPage e s n)"
  by (simp add: navigateToPage_def Let_def hideLoading_def)

lemma handlePageIntersection_isLoading:
  "isLoading (handlePageIntersection entries s) = isLoading s"
  by (simp add: handlePageIntersection_def updatePageIndicator_def Let_def split: option.splits)

lemma handleScroll_idle:
  "\<not> isLoading s \<Longrightarrow> \<not> isLoading (handleScroll e s)"
  by (simp add: handleScroll_def renderNextPage_idle)

lemma step_idle: "\<not> isLoading s \<Longrightarrow> \<not> isLoading (step e ev s)"
  by (cases ev) (simp_all add: handleScroll_idle navigateToPage_idle handlePageIntersection_isLoading)

lemma trace_idle: "\<not> isLoading s \<Longrightarrow> \<forall>s' \<in> set (trace s evs). \<not> isLoading s'"
proof (induction evs arbitrary: s)
  case Nil
  then show ?case by simp
next
  case (Cons x evs)
  obtain e ev where x: "x = (e, ev)" by (cases x)
  from Cons.prems have "\<not> isLoading (step e ev s)" by (rule step_idle)
  with Cons.IH [of "step e ev s"] x show ?case by simp
qed

lemma initialFill_returns:
  assumes "\<not> isLoading s"
  shows "\<exists>K. initialFill e s = Some ((renderNextPage e ^^ K) s) \<and>
             \<not> fillMore e ((renderNextPage e ^^ K) s) \<and>
             (\<forall>k<K. fillMore e ((renderNextPage e ^^ k) s))"
  using assms
proof (induction "nat (total s - pageNumber s)" arbitrary: s rule: less_induct)
  case less
  show ?case
  proof (cases "fillMore e s")
    case False
    then have "initialFill e s = Some s" by (subst initialFill.simps) simp
    with False show ?thesis by (intro exI [of _ 0]) simp
  next
    case True
    let ?s' = "renderNextPage e s"
    from True have lt: "pageNumber s < total s" by (simp add: fillMore_def)
    with less.prems have "nat (total ?s' - pageNumber ?s') < nat (total s - pageNumber s)"
      by (simp add: renderNextPage_run)
    moreover have "\<not> isLoading ?s'" using less.prems by (rule renderNextPage_idle)
    ultimately obtain K where K:
      "initialFill e ?s' = Some ((renderNextPage e ^^ K) ?s')"
      "\<not> fillMore e ((renderNextPage e ^^ K) ?s')"
      "\<forall>k<K. fillMore e ((renderNextPage e ^^ k) ?s')"
      using less.hyps [of ?s'] by blast
    have "initialFill e s = initialFill e ?s'"
      using True by (subst initialFill.simps) simp
    with K(1) have 1: "initialFill e s = Some ((renderNextPage e ^^ Suc K) s)"
      by (simp add: funpow_swap1)
    have 2: "\<not> fillMore e ((renderNextPage e ^^ Suc K) s)"
      using K(2) by (simp add: funpow_swap1)
    have 3: "\<forall>k<Suc K. fillMore e ((renderNextPage e ^^ k) s)"
    proof (intro allI impI)
      fix k assume "k < Suc K"
      show "fillMore e ((renderNextPage e ^^ k) s)"
      proof (cases k)
        case 0
        with True show ?thesis by simp
      next
        case (Suc j)
        with \<open>k < Suc K\<close> K(3) show ?thesis by (simp add: funpow_swap1)
      qed
    qed
    from 1 2 3 show ?thesis by blast
  qed
qed

lemma fill_steps:
  assumes "\<not> isLoading s" "\<forall>k<K. fillMore e ((renderNextPage e ^^ k) s)"
  shows "\<not> isLoading ((renderNextPage e ^^ K) s) \<and>
         pageNumber ((renderNextPage e ^^ K) s) = pageNumber s + int K \<and>
         total ((renderNextPage e ^^ K) s) = total s \<and>
         requests ((renderNextPage e ^^ K) s) = requests s @ [pageNumber s + 1..pageNumber s + int K]"
  using assms
proof (induction K)
  case 0
  then show ?case by simp
next
  case (Suc K)
  let ?t = "(renderNextPage e ^^ K) s"
  from Suc have IH: "\<not> isLoading ?t" "pageNumber ?t = pageNumber s + int K"
    "total ?t = total s"
    "requests ?t = requests s @ [pageNumber s + 1..pageNumber s + int K]"
    by simp_all
  from Suc.prems have "fillMore e ?t" by simp
  then have lt: "pageNumber ?t < total ?t" by (simp add: fillMore_def)
  have up: "[pageNumber s + 1..pageNumber s + int (Suc K)] =
            [pageNumber s + 1..pageNumber s + int K] @ [pageNumber s + int K + 1]"
    using upto_rec2 [of "pageNumber s + 1" "pageNumber s + int K + 1"]
    by (simp add: add.commute add.left_commute)
  show ?case
    using IH lt up
    by (simp add: renderNextPage_idle renderNextPage_run)
qed

subsection \<open>The invariant is kept\<close>

lemma getPdfPage_tracked:
  "tracked s \<Longrightarrow> 0 < total s \<Longrightarrow> tracked (snd (getPdfPage e s n))"
  using getPdfPage_observed [of e s n]
  by (auto simp: tracked_def getPdfPage_frame)

lemma tracked_cursor:
  "tracked s \<Longrightarrow> 0 \<le> k \<Longrightarrow> tracked (s\<lparr>pageNumber := k, isLoading := b\<rparr>)"
  by (simp add: tracked_def)

lemma tracked_isLoading:
  "tracked (s\<lparr>isLoading := b\<rparr>) = tracked s"
  by (simp add: tracked_def)

lemma renderNextPage_tracked:
  assumes "tracked s" shows "tracked (renderNextPage e s)"
proof (cases "isLoading s \<or> total s \<le> pageNumber s")
  case True
  with assms show ?thesis by (simp add: renderNextPage_skip)
next
  case False
  with assms have pos: "0 < total s" "0 \<le> pageNumber s + 1" by (auto simp: tracked_def)
  with assms have "tracked (snd (getPdfPage e (s\<lparr>isLoading := True\<rparr>) (pageNumber s + 1)))"
    by (intro getPdfPage_tracked) (simp_all add: tracked_isLoading)
  with False pos show ?thesis
    by (simp add: renderNextPage_def Let_def tracked_cursor)
qed

lemma batch_tracked:
  "tracked s \<Longrightarrow> 0 < total s \<Longrightarrow> tracked (renderPagesBatch e s i j)"
proof (induction e s i j rule: renderPagesBatch.induct)
  case (1 e s i j)
  show ?case
  proof (cases "i \<le> j \<and> i \<le> total s")
    case True
    with 1 show ?thesis
      by (subst renderPagesBatch.simps) (simp add: getPdfPage_tracked getPdfPage_frame)
  next
    case False
    with 1 show ?thesis by (subst renderPagesBatch.simps) auto
  qed
qed

lemma navigateToPage_tracked:
  assumes "tracked s" shows "tracked (navigateToPage e s n)"
proof (cases "n < 1 \<or> n > total s \<or> pdfDoc s = None \<or> isLoading s")
  case True
  with assms show ?thesis by (simp add: navigateToPage_def)
next
  case False
  define s3 where "s3 = showLoading s\<lparr>pageContainer := [], observed := [], visiblePages := [],
     pageNumber := n - 1, scrollTop := 0\<rparr>"
  have t3: "tracked s3" "0 < total s3" using False
    by (simp_all add: s3_def tracked_def showLoading_def)
  define s4 where "s4 = renderPagesBatch e s3 n (n + 3 - 1)"
  have t4: "tracked s4" "0 < total s4"
    using t3 by (simp_all add: s4_def batch_tracked batch_frame)
  have hl: "\<And>t. tracked t \<Longrightarrow> tracked (hideLoading t)"
    by (simp add: tracked_def hideLoading_def)
  have "navigateToPage e s n = hideLoading s4 \<or>
        (\<exists>j. navigateToPage e s n = hideLoading (renderPagesBatch e s4 (n + 3) j))"
    using False by (auto simp add: navigateToPage_def Let_def s4_def s3_def simp del: not_None_eq)
  with t4 hl show ?thesis by (auto simp: batch_tracked)
qed

lemma fold_visitEntry_subset:
  "set (fold visitEntry entries vis) \<subseteq> set vis \<union> fst ` set entries"
proof (induction entries arbitrary: vis)
  case Nil
  then show ?case by simp
next
  case (Cons a entries)
  have "set (visitEntry a vis) \<subseteq> set vis \<union> {fst a}"
    by (auto simp: visitEntry_def setAdd_def setDelete_def Let_def)
  with Cons [of "visitEntry a vis"] show ?case by auto
qed

lemma handlePageIntersection_fields:
  "visiblePages (handlePageIntersection entries s) = fold visitEntry entries (visiblePages s)"
  "observed (handlePageIntersection entries s) = observed s"
  "total (handlePageIntersection entries s) = total s"
  "pageNumber (handlePageIntersection entries s) = pageNumber s"
  "requests (handlePageIntersection entries s) = requests s"
  by (simp_all add: handlePageIntersection_def updatePageIndicator_def Let_def split: option.splits)

lemma handlePageIntersection_tracked:
  assumes "tracked s" "deliverable s (Intersect entries)"
  shows "tracked (handlePageIntersection entries s)"
proof -
  from assms(2) have "fst ` set entries \<subseteq> set (observed s)"
    by (auto simp: list_all_iff)
  with fold_visitEntry_subset [of entries "visiblePages s"] assms(1)
  show ?thesis
    by (auto simp: tracked_def handlePageIntersection_fields)
qed

lemma step_tracked:
  "tracked s \<Longrightarrow> deliverable s ev \<Longrightarrow> tracked (step e ev s)"
proof (cases ev)
  case (Scroll offset)
  assume "tracked s"
  then have "tracked (s\<lparr>scrollTop := offset\<rparr>)" by (simp add: tracked_def)
  then show ?thesis using Scroll
    by (simp add: handleScroll_def renderNextPage_tracked)
qed (simp_all add: navigateToPage_tracked handlePageIntersection_tracked)

lemma run_tracked:
  "tracked s \<Longrightarrow> deliverableRun s evs \<Longrightarrow> tracked (run s evs)"
proof (induction evs arbitrary: s)
  case Nil
  then show ?case by simp
next
  case (Cons x evs)
  then show ?case by (cases x) (simp add: step_tracked)
qed

lemma funpow_tracked: "tracked s \<Longrightarrow> tracked ((renderNextPage e ^^ K) s)"
  by (induction K) (simp_all add: renderNextPage_tracked)

lemma constructor_idle: "\<not> isLoading (constructor mount options)"
  by (simp add: constructor_def)

lemma documentLoaded_idle: "\<not> isLoading (documentLoaded n (constructor mount options))"
  by (simp add: documentLoaded_def constructor_def updatePageIndicator_def Let_def)

lemma documentLoaded_tracked: "tracked (documentLoaded n (constructor mount options))"
  by (simp add: documentLoaded_def constructor_def updatePageIndicator_def Let_def tracked_def)

lemma reportError_fields:
  "isLoading (reportError msg s) = isLoading s"
  "tracked (reportError msg s) = tracked s"
  by (simp_all add: reportError_def tracked_def)

lemma constructor_tracked: "tracked (constructor mount options)"
  by (simp add: constructor_def tracked_def)

lemma pdfPreview_returns:
  "\<exists>r s0. pdfPreview e outcome (constructor mount options) = Some (r, s0) \<and>
           \<not> isLoading s0 \<and> tracked s0"
proof (cases outcome)
  case (Loaded numPages)
  let ?s = "documentLoaded numPages (constructor mount options)"
  obtain K where K: "initialFill e ?s = Some ((renderNextPage e ^^ K) ?s)"
    and all: "\<forall>k<K. fillMore e ((renderNextPage e ^^ k) ?s)"
    using initialFill_returns [OF documentLoaded_idle] by blast
  have "\<not> isLoading ((renderNextPage e ^^ K) ?s)"
    using fill_steps [OF documentLoaded_idle all] by simp
  moreover have "tracked ((renderNextPage e ^^ K) ?s)"
    by (rule funpow_tracked) (rule documentLoaded_tracked)
  ultimately show ?thesis using Loaded K by (simp add: pdfPreview_def)
next
  case (WorkerUrlThrows msg)
  then show ?thesis
    by (simp add: pdfPreview_def reportError_fields constructor_idle constructor_tracked)
next
  case (GetDocumentRejects msg)
  then show ?thesis
    by (simp add: pdfPreview_def reportError_fields constructor_idle constructor_tracked)
qed

lemma mathMax_Max: "vis \<noteq> [] \<Longrightarrow> mathMax vis = Some (Max (set vis))"
  by (cases vis) (simp_all add: Max.set_eq_fold [symmetric])

subsection \<open>The outline filter\<close>

lemma includes_sublist: "includes_str hay needle \<longleftrightarrow> sublist needle hay"
  by (induction hay) (auto simp: sublist_Cons_right)

lemma filter_snd: "snd (filterTocItem js q t) = shown (fst (filterTocItem js q t))"
  by (cases t) (simp add: Let_def)

lemma filter_shape: "shapeOf (fst (filterTocItem js q t)) = shapeOf t"
  by (induction t) (simp add: Let_def)

lemma filter_title: "title (fst (filterTocItem js q t)) = title t"
  by (cases t) (simp add: Let_def)

subsection \<open>The concrete session, evaluated\<close>

lemma example_open:
  "pdfPreview exampleEnv (Loaded 5) (constructor [] exampleOptions) =
   Some (Resolved \<lparr>success = True, data = Doc 5, message = None\<rparr>, exampleOpened)"
  by (simp add: initialFill.simps exampleOpened_def eval_defs)


lemma example_run:
  "run exampleOpened exampleScrolls =
   exampleOpened\<lparr>pageNumber := 5, scrollTop := 300,
     pageContainer := pageContainer exampleOpened @
       [\<lparr>dataPageNumber = 4, scaleUsed = Num 2, hasDivider = True, canvas = Painted\<rparr>,
        \<lparr>dataPageNumber = 5, scaleUsed = Num 2, hasDivider = False, canvas = Painted\<rparr>],
     pageIndicator := Some (3, 5),
     observed := [1, 2, 3, 4, 5], visiblePages := [2, 3, 1], requests := [1, 2, 3, 4, 5]\<rparr>"
  by (simp add: exampleScrolls_def exampleOpened_def eval_defs)

lemma example_deliverable: "deliverableRun exampleOpened exampleScrolls"
  by (simp add: exampleScrolls_def exampleOpened_def eval_defs)


subsection \<open>Requests made by scroll events\<close>

lemma step_requests:
  assumes "\<not> isNavigate ev"
  shows "\<exists>new. requests (step e ev s) = requests s @ new \<and> (\<forall>p \<in> set new. pageNumber s < p) \<and>
          pageNumber s \<le> pageNumber (step e ev s)"
proof (cases ev)
  case (Scroll offset)
  let ?s = "s\<lparr>scrollTop := offset\<rparr>"
  show ?thesis
  proof (cases "handleScroll e ?s = ?s")
    case True
    with Scroll show ?thesis by simp
  next
    case False
    then have run: "\<not> isLoading ?s" "pageNumber ?s < total ?s" "handleScroll e ?s = renderNextPage e ?s"
      by (auto simp: handleScroll_def split: if_splits)
    with Scroll show ?thesis by (simp add: renderNextPage_run)
  qed
next
  case (Navigate n)
  with assms show ?thesis by simp
next
  case (Intersect entries)
  then show ?thesis by (simp add: handlePageIntersection_fields)
qed

lemma run_requests:
  "\<forall>x \<in> set evs. \<not> isNavigate (snd x) \<Longrightarrow>
   \<exists>new. requests (run s evs) = requests s @ new \<and> (\<forall>p \<in> set new. pageNumber s < p)"
proof (induction evs arbitrary: s)
  case Nil
  then show ?case by simp
next
  case (Cons x evs)
  obtain e ev where x: "x = (e, ev)" by (cases x)
  with Cons.prems have "\<not> isNavigate ev" by simp
  then obtain new1 where 1: "requests (step e ev s) = requests s @ new1"
    "\<forall>p \<in> set new1. pageNumber s < p" "pageNumber s \<le> pageNumber (step e ev s)"
    using step_requests [of ev e s] by blast
  from Cons.prems obtain new2 where 2: "requests (run (step e ev s) evs) = requests (step e ev s) @ new2"
    "\<forall>p \<in> set new2. pageNumber (step e ev s) < p"
    using Cons.IH [of "step e ev s"] by auto
  from 1 2 x show ?case
    by (intro exI [of _ "new1 @ new2"]) auto
qed

subsection \<open>More on the outline filter\<close>

lemma nodes_filter:
  "nodes (fst (filterTocItem js q t)) = map (\<lambda>item. fst (filterTocItem js q item)) (nodes t)"
proof (induction t)
  case (TocItem t d subs)
  have "concat (map (nodes \<circ> fst \<circ> filterTocItem js q) subs) =
        concat (map (map (\<lambda>item. fst (filterTocItem js q item)) \<circ> nodes) subs)"
    using TocItem.IH by (intro arg_cong [where f = concat] map_cong) simp_all
  then show ?case
    by (simp add: Let_def map_concat comp_def)
qed

lemma filter_shown:
  "shown (fst (filterTocItem js q t)) \<longleftrightarrow>
   (\<exists>m \<in> set (nodes t). includes_str (toLowerCase js (title m)) q)"
proof (induction t)
  case (TocItem t d subs)
  have "list_ex snd (map (filterTocItem js q) subs) \<longleftrightarrow>
        (\<exists>c \<in> set subs. \<exists>m \<in> set (nodes c). includes_str (toLowerCase js (title m)) q)"
    using TocItem.IH by (auto simp: list_ex_iff filter_snd)
  then show ?case by (auto simp: Let_def)
qed

lemma nodes_self: "nodes t = t # descendants t"
  by (cases t) (simp add: descendants_def)

lemma descendants_filter:
  "descendants (fst (filterTocItem js q t)) =
   map (\<lambda>item. fst (filterTocItem js q item)) (descendants t)"
  using nodes_filter [of js q t] by (simp add: nodes_self)

lemma filter_empty: "fst (filterTocItem js [] t) = shapeOf t"
proof (induction t)
  case (TocItem t d subs)
  have "includes_str (toLowerCase js t) []" by (simp add: includes_sublist)
  with TocItem show ?case by (simp add: Let_def)
qed

lemmas ascii_defs = asciiStrings_def lowerChar_def isSpace_def

lemma example_search:
  "handleTocSearch asciiStrings '' GUIDE '' (Some exampleOutline) = Some exampleFiltered"
  by (simp add: handleTocSearch_def exampleOutline_def exampleFiltered_def ascii_defs)

lemma example_cleared:
  "handleTocSearch asciiStrings '' '' (Some exampleFiltered) = Some exampleOutline"
  by (simp add: handleTocSearch_def exampleOutline_def exampleFiltered_def ascii_defs)

section \<open>The claims\<close>

subsection \<open>C1: the loading flag does not leak\<close>

text \<open>
  C1. Opening a document always returns, and leaves the loading flag clear; after
  every event of every sequence of scroll, navigation and intersection events that
  follows, the flag is clear again. Started with the flag clear, \<^verbatim>\<open>navigateToPage\<close>
  ends with it clear whether it returns early or renders, and so do
  \<^verbatim>\<open>renderNextPage\<close> and \<^verbatim>\<open>handleScroll\<close>. (The \<^verbatim>\<open>catch\<close> block of
  \<^verbatim>\<open>navigateToPage\<close> is never entered: \<^verbatim>\<open>getPdfPage\<close> turns every failure into a
  result.)
\<close>

theorem busy_flag_released:
  "(\<exists>r s0. pdfPreview e0 outcome (constructor mount options) = Some (r, s0) \<and>
            \<not> isLoading s0 \<and> (\<forall>s' \<in> set (trace s0 evs). \<not> isLoading s')) \<and>
   (\<not> isLoading s \<longrightarrow>
      \<not> isLoading (navigateToPage e s n) \<and> \<not> isLoading (renderNextPage e s) \<and>
      \<not> isLoading (handleScroll e s))"
proof -
  obtain r s0 where "pdfPreview e0 outcome (constructor mount options) = Some (r, s0)"
    and "\<not> isLoading s0"
    using pdfPreview_returns [of e0 outcome mount options] by blast
  then show ?thesis
    using trace_idle [of s0 evs]
    by (simp add: navigateToPage_idle renderNextPage_idle handleScroll_idle)
qed

theorem busy_flag_released_witness:
  "(\<exists>r s0. pdfPreview exampleEnv (Loaded 5) (constructor [] exampleOptions) = Some (r, s0) \<and>
            \<not> isLoading s0 \<and> length (trace s0 exampleEvents) = 5 \<and>
            (\<forall>s' \<in> set (trace s0 exampleEvents). \<not> isLoading s')) \<and>
   \<not> isLoading exampleLoaded \<and> \<not> isLoading (navigateToPage exampleEnv exampleLoaded 2)"
  using busy_flag_released [of exampleEnv "Loaded 5" "[]" exampleOptions exampleEvents
      exampleLoaded exampleEnv 2]
  by (auto simp: exampleEvents_def exampleLoaded_def documentLoaded_def constructor_def
      updatePageIndicator_def Let_def)

subsection \<open>C2: the initial fill\<close>



subsection \<open>C3: one page per scroll event at most\<close>




subsection \<open>C4: the page indicator\<close>

text \<open>
  C4. In every state reached from opening a document by events the observer can
  deliver, an intersection update that leaves the set of visible pages non-empty
  sets the indicator to the largest visible page (and the page count).
\<close>

theorem indicator_is_max_visible:
  assumes "pdfPreview e0 outcome (constructor mount options) = Some (r, s0)"
      and "deliverableRun s0 evs"
      and "deliverable (run s0 evs) (Intersect entries)"
      and "visiblePages (handlePageIntersection entries (run s0 evs)) \<noteq> []"
  shows "pageIndicator (handlePageIntersection entries (run s0 evs)) =
         Some (Max (set (visiblePages (handlePageIntersection entries (run s0 evs)))),
               total (run s0 evs))"
proof -
  let ?s = "run s0 evs"
  let ?s' = "handlePageIntersection entries ?s"
  from pdfPreview_returns [of e0 outcome mount options] assms(1) have "tracked s0" by auto
  then have "tracked ?s" using assms(2) by (rule run_tracked)
  then have "tracked ?s'" using assms(3) by (rule handlePageIntersection_tracked)
  with assms(4) have "0 < total ?s"
    by (auto simp: tracked_def handlePageIntersection_fields)
  moreover have "mathMax (fold visitEntry entries (visiblePages ?s)) =
      Some (Max (set (fold visitEntry entries (visiblePages ?s))))"
    using assms(4) by (intro mathMax_Max) (simp add: handlePageIntersection_fields)
  ultimately show ?thesis
    by (simp add: handlePageIntersection_def updatePageIndicator_def Let_def)
qed

theorem indicator_is_max_visible_witness:
  "pdfPreview exampleEnv (Loaded 5) (constructor [] exampleOptions) =
     Some (Resolved \<lparr>success = True, data = Doc 5, message = None\<rparr>, exampleOpened) \<and>
   deliverableRun exampleOpened exampleScrolls \<and>
   deliverable (run exampleOpened exampleScrolls) (Intersect [(1, False), (5, True), (4, True)]) \<and>
   visiblePages (handlePageIntersection [(1, False), (5, True), (4, True)]
      (run exampleOpened exampleScrolls)) = [2, 3, 5, 4] \<and>
   pageIndicator (handlePageIntersection [(1, False), (5, True), (4, True)]
      (run exampleOpened exampleScrolls)) = Some (5, 5)"
proof -
  let ?entries = "[(1, False), (5, True), (4, True)] :: (int \<times> bool) list"
  have d: "deliverable (run exampleOpened exampleScrolls) (Intersect ?entries)"
    by (simp add: example_run)
  have v: "visiblePages (handlePageIntersection ?entries (run exampleOpened exampleScrolls)) =
           [2, 3, 5, 4]"
    unfolding example_run by (simp add: exampleOpened_def eval_defs)
  then have ne: "visiblePages (handlePageIntersection ?entries (run exampleOpened exampleScrolls))
      \<noteq> []" by simp
  from indicator_is_max_visible [OF example_open example_deliverable d ne] v
  have "pageIndicator (handlePageIntersection ?entries (run exampleOpened exampleScrolls)) =
        Some (5, 5)"
    unfolding example_run by (simp add: exampleOpened_def)
  with example_open example_deliverable d v show ?thesis by simp
qed

subsection \<open>C5: the device scale\<close>

text \<open>
  C5, as amended. On Safari the scale is the smaller of a numeric
  \<^verbatim>\<open>devicePixelRatio\<close> and 2. Elsewhere it is \<^verbatim>\<open>devicePixelRatio\<close> when that is a
  number other than zero, and 1 when it is undefined. Safari with 3 gives 2, another
  engine with 3 gives 3. A page that could be fetched is appended with this scale.
\<close>

theorem device_scale_selection:
  "deviceScale True (Num r) = Num (min r 2) \<and>
   (r \<noteq> 0 \<longrightarrow> deviceScale False (Num r) = Num r) \<and>
   deviceScale False Undefined = Num 1 \<and>
   deviceScale True (Num 3) = Num 2 \<and>
   deviceScale False (Num 3) = Num 3 \<and>
   (pdfDoc s \<noteq> None \<and> getPage e n = None \<longrightarrow>
      (\<exists>w. pageContainer (snd (getPdfPage e s n)) = pageContainer s @ [w] \<and>
           scaleUsed w = deviceScale (isSafari e) (devicePixelRatio e)))"
  by (auto simp: deviceScale_def getPdfPage_def pageFailure_def Let_def split: option.splits)

theorem device_scale_selection_witness:
  "(1.5::real) \<noteq> 0 \<and> deviceScale False (Num 1.5) = Num 1.5 \<and>
   deviceScale True (Num 1.5) = Num 1.5 \<and>
   pdfDoc exampleLoaded \<noteq> None \<and> getPage exampleEnv 1 = None \<and>
   map scaleUsed (pageContainer (snd (getPdfPage exampleEnv exampleLoaded 1))) = [Num 2]"
  using device_scale_selection [of "1.5" exampleLoaded exampleEnv 1]
  by (simp add: eval_defs)

text \<open>
  The claim as stated gives 1 for an undefined \<^verbatim>\<open>devicePixelRatio\<close> on every
  engine. On Safari the default is not applied: \<^verbatim>\<open>Math.min(undefined, 2)\<close> is \<^verbatim>\<open>NaN\<close>.
\<close>

theorem device_scale_undefined_on_safari:
  "deviceScale True Undefined = NaN \<and> deviceScale True Undefined \<noteq> Num 1"
  by (simp add: deviceScale_def)

subsection \<open>C6: a rejected navigation changes nothing\<close>

text \<open>
  C6. \<^verbatim>\<open>navigateToPage(n)\<close> with \<open>n\<close> below 1 or above the page count, or called
  while the loading flag is set, returns the state it was given: no page is
  requested, and the container, the cursor, the visible pages and the flag are
  unchanged.
\<close>

theorem navigation_rejected:
  "n < 1 \<or> total s < n \<or> isLoading s \<Longrightarrow> navigateToPage e s n = s"
  by (auto simp: navigateToPage_def)

theorem navigation_rejected_witness:
  "(0::int) < 1 \<and> navigateToPage exampleEnv exampleLoaded 0 = exampleLoaded \<and>
   total exampleLoaded < 6 \<and> navigateToPage exampleEnv exampleLoaded 6 = exampleLoaded \<and>
   isLoading (showLoading exampleLoaded) \<and>
   navigateToPage exampleEnv (showLoading exampleLoaded) 2 = showLoading exampleLoaded"
  using navigation_rejected [of 0 exampleLoaded exampleEnv]
    navigation_rejected [of 6 exampleLoaded exampleEnv]
    navigation_rejected [of 2 "showLoading exampleLoaded" exampleEnv]
  by (simp add: exampleLoaded_def documentLoaded_def constructor_def updatePageIndicator_def
      showLoading_def Let_def)

subsection \<open>C7: outline search\<close>

text \<open>
  C7, as amended. Whatever \<^verbatim>\<open>toLowerCase\<close> and \<^verbatim>\<open>trim\<close> of the runtime do: after
  a search the titles and the shape of the outline are unchanged, and an entry at any
  depth is shown exactly when its own lower-cased title contains, as a substring, the
  query lower-cased and then trimmed, or the lower-cased title of an entry below it
  does. A query that is empty after lower-casing and trimming shows every entry.
\<close>

theorem outline_search_is_a_filter:
  assumes "handleTocSearch js inputValue (Some lis) = Some lis'"
  shows "map shapeOf lis' = map shapeOf lis \<and>
         (\<forall>item \<in> set (concat (map nodes lis')).
            shown item \<longleftrightarrow>
              sublist (trim js (toLowerCase js inputValue)) (toLowerCase js (title item)) \<or>
              (\<exists>d \<in> set (descendants item).
                 sublist (trim js (toLowerCase js inputValue)) (toLowerCase js (title d)))) \<and>
         (trim js (toLowerCase js inputValue) = [] \<longrightarrow> lis' = map shapeOf lis)"
proof -
  define q where "q = trim js (toLowerCase js inputValue)"
  have lis': "lis' = map (\<lambda>item. fst (filterTocItem js q item)) lis"
    using assms by (simp add: handleTocSearch_def q_def Let_def)
  have 1: "map shapeOf lis' = map shapeOf lis"
    by (simp add: lis' filter_shape comp_def)
  have 2: "shown item \<longleftrightarrow>
              sublist q (toLowerCase js (title item)) \<or>
              (\<exists>d \<in> set (descendants item). sublist q (toLowerCase js (title d)))"
    if "item \<in> set (concat (map nodes lis'))" for item
  proof -
    from that obtain root where "root \<in> set lis"
      "item \<in> set (nodes (fst (filterTocItem js q root)))"
      by (auto simp: lis')
    then obtain orig where item: "item = fst (filterTocItem js q orig)"
      by (auto simp: nodes_filter)
    have "shown item \<longleftrightarrow> (\<exists>m \<in> set (nodes orig). includes_str (toLowerCase js (title m)) q)"
      by (simp add: item filter_shown)
    also have "\<dots> \<longleftrightarrow> includes_str (toLowerCase js (title orig)) q \<or>
        (\<exists>m \<in> set (descendants orig). includes_str (toLowerCase js (title m)) q)"
      by (simp add: nodes_self)
    also have "\<dots> \<longleftrightarrow> includes_str (toLowerCase js (title item)) q \<or>
        (\<exists>d \<in> set (descendants item). includes_str (toLowerCase js (title d)) q)"
      by (simp add: item descendants_filter filter_title)
    finally show ?thesis by (simp add: includes_sublist)
  qed
  have 3: "q = [] \<longrightarrow> lis' = map shapeOf lis"
    by (simp add: lis' filter_empty)
  from 1 2 3 show ?thesis unfolding q_def by blast
qed

theorem outline_search_is_a_filter_witness:
  "handleTocSearch asciiStrings '' GUIDE '' (Some exampleOutline) = Some exampleFiltered \<and>
   trim asciiStrings (toLowerCase asciiStrings '' GUIDE '') = ''guide'' \<and>
   map shapeOf exampleFiltered = map shapeOf exampleOutline \<and>
   map title (concat (map nodes exampleFiltered)) =
     [''Part One'', ''Basics'', ''Install Guide'', ''History'', ''Part Two'', ''Appendix''] \<and>
   map shown (concat (map nodes exampleFiltered)) = [True, True, True, False, False, False] \<and>
   list_all
     (\<lambda>item. shown item \<longleftrightarrow>
        sublist ''guide'' (toLowerCase asciiStrings (title item)) \<or>
        list_ex (\<lambda>d. sublist ''guide'' (toLowerCase asciiStrings (title d))) (descendants item))
     (concat (map nodes exampleFiltered)) \<and>
   trim asciiStrings (toLowerCase asciiStrings '' '') = [] \<and>
   handleTocSearch asciiStrings '' '' (Some exampleFiltered) = Some (map shapeOf exampleOutline)"
proof -
  have shape: "map shapeOf exampleFiltered = map shapeOf exampleOutline"
    and titles: "map title (concat (map nodes exampleFiltered)) =
     [''Part One'', ''Basics'', ''Install Guide'', ''History'', ''Part Two'', ''Appendix'']"
    and flags: "map shown (concat (map nodes exampleFiltered)) =
     [True, True, True, False, False, False]"
    by (simp_all add: exampleFiltered_def exampleOutline_def)
  have query: "trim asciiStrings (toLowerCase asciiStrings '' GUIDE '') = ''guide''"
    and blank: "trim asciiStrings (toLowerCase asciiStrings '' '') = []"
    by (simp_all add: ascii_defs)
  have "map shapeOf exampleOutline = exampleOutline" by (simp add: exampleOutline_def)
  with outline_search_is_a_filter [OF example_cleared] blank
  have restored: "handleTocSearch asciiStrings '' '' (Some exampleFiltered) =
      Some (map shapeOf exampleOutline)"
    by (simp add: example_cleared)
  from outline_search_is_a_filter [OF example_search]
  have "list_all
     (\<lambda>item. shown item \<longleftrightarrow>
        sublist ''guide'' (toLowerCase asciiStrings (title item)) \<or>
        list_ex (\<lambda>d. sublist ''guide'' (toLowerCase asciiStrings (title d))) (descendants item))
     (concat (map nodes exampleFiltered))"
    unfolding list_all_iff list_ex_iff query by blast
  with example_search query shape titles flags blank restored
  show ?thesis by blast
qed

text \<open>
  The claim as stated compares with the query as typed. The query is trimmed first:
  typed with a leading blank, \<open>ab\<close> shows the entry \<open>ab\<close>, whose title does not
  contain the blank.
\<close>

theorem trimmed_query_matches_untrimmed_title:
  "handleTocSearch asciiStrings '' ab'' (Some [TocItem ''ab'' False []]) =
     Some [TocItem ''ab'' True []] \<and>
   \<not> containsIgnoringCase asciiStrings ''ab'' '' ab'' \<and>
   descendants (TocItem ''ab'' True []) = []"
  by (simp add: handleTocSearch_def ascii_defs containsIgnoringCase_def descendants_def
      includes_sublist [symmetric])

subsection \<open>C8: a page that fails to render\<close>

text \<open>
  C8, as amended. When a page of an open document cannot be fetched, has no drawing
  context or its render is rejected, \<^verbatim>\<open>getPdfPage\<close> returns a failure result and,
  when an error callback was given, hands it exactly this result; nothing is thrown
  to the caller. The pages appended before stay as they were. The batch is not
  cut short: \<^verbatim>\<open>renderPagesBatch\<close> requests every page from the first to the smaller
  of its last page and the page count, whatever the results.
\<close>

theorem page_failure_is_a_result:
  assumes "pdfDoc s \<noteq> None"
      and "getPage e n \<noteq> None \<or> \<not> getContext e n \<or> renderPage e n \<noteq> None"
  shows "\<not> success (fst (getPdfPage e s n)) \<and>
         (onErrorGiven s \<longrightarrow>
            errorLog (snd (getPdfPage e s n)) = errorLog s @ [fst (getPdfPage e s n)]) \<and>
         prefix (pageContainer s) (pageContainer (snd (getPdfPage e s n))) \<and>
         prefix (pageContainer s) (pageContainer (renderPagesBatch e s i j)) \<and>
         requests (renderPagesBatch e s i j) = requests s @ [i..min j (total s)]"
proof -
  have "\<not> success (fst (getPdfPage e s n))"
    using assms by (auto simp: getPdfPage_def pageFailure_def Let_def split: option.splits)
  moreover have "onErrorGiven s \<longrightarrow>
      errorLog (snd (getPdfPage e s n)) = errorLog s @ [fst (getPdfPage e s n)]"
    using assms by (auto simp: getPdfPage_def pageFailure_def Let_def split: option.splits)
  ultimately show ?thesis
    by (simp add: getPdfPage_container batch_container batch_requests)
qed

theorem page_failure_is_a_result_witness:
  "pdfDoc exampleLoaded \<noteq> None \<and> renderPage exampleEnv 1 \<noteq> None \<and> onErrorGiven exampleLoaded \<and>
   \<not> success (fst (getPdfPage exampleEnv exampleLoaded 1)) \<and>
   errorLog (snd (getPdfPage exampleEnv exampleLoaded 1)) =
     [\<lparr>success = False, data = Null, message = Some ''render cancelled''\<rparr>] \<and>
   requests (renderPagesBatch exampleEnv exampleLoaded 1 3) = [1, 2, 3]"
proof -
  have a: "pdfDoc exampleLoaded \<noteq> None" by (simp add: eval_defs)
  have b: "getPage exampleEnv 1 \<noteq> None \<or> \<not> getContext exampleEnv 1 \<or> renderPage exampleEnv 1 \<noteq> None"
    by (simp add: exampleEnv_def)
  have c: "[1..min 3 (total exampleLoaded)] = [1, 2, 3]"
    by (simp add: eval_defs upto.simps)
  have d: "fst (getPdfPage exampleEnv exampleLoaded 1) =
      \<lparr>success = False, data = Null, message = Some ''render cancelled''\<rparr>"
    by (simp add: eval_defs)
  from page_failure_is_a_result [OF a b, of 1 3] c d show ?thesis
    by (simp add: eval_defs)
qed

text \<open>
  The claim as stated has the rest of the batch dropped. With the render of page 1
  rejected, the batch and the navigation to page 1 go on to render pages 2 and 3.
\<close>

theorem batch_continues_after_failed_page:
  "\<not> success (fst (getPdfPage exampleEnv exampleLoaded 1)) \<and>
   requests (renderPagesBatch exampleEnv exampleLoaded 1 3) = [1, 2, 3] \<and>
   map canvas (pageContainer (renderPagesBatch exampleEnv exampleLoaded 1 3)) =
     [Sized, Painted, Painted] \<and>
   map dataPageNumber (pageContainer (navigateToPage exampleEnv exampleLoaded 1)) = [1, 2, 3] \<and>
   map canvas (pageContainer (navigateToPage exampleEnv exampleLoaded 1)) =
     [Sized, Painted, Painted]"
  by (simp add: renderPagesBatch.simps eval_defs)

subsection \<open>C9: a document that fails to load\<close>

text \<open>
  C9, as amended. When the document cannot be loaded, \<^verbatim>\<open>pdfPreview\<close> rejects with a
  failure result and \<^verbatim>\<open>renderPdf\<close> returns normally; an error callback receives the
  failure (once from \<^verbatim>\<open>pdfPreview\<close>, once from \<^verbatim>\<open>renderPdf\<close>). No page is
  requested or appended and the loading flag is clear. The mount element keeps what
  it held and the container that the constructor appended.
\<close>

theorem failed_open_is_reported:
  assumes "outcome = WorkerUrlThrows msg \<or> outcome = GetDocumentRejects msg"
      and "windowDefined h" and "reader h = ReaderResult" and "optDom options = Some mount"
  shows "\<exists>s. renderPdf e h outcome options = Some (Instance s) \<and>
             pdfPreview e outcome (constructor mount options) =
               Some (Rejected \<lparr>success = False, data = Null, message = Some msg\<rparr>,
                     reportError msg (constructor mount options)) \<and>
             errorLog s =
               (if onError options
                then [\<lparr>success = False, data = Null, message = Some msg\<rparr>,
                      \<lparr>success = False, data = Null, message = Some ''Failed to render PDF''\<rparr>]
                else []) \<and>
             pageContainer s = [] \<and> requests s = [] \<and> pageNumber s = 0 \<and> \<not> isLoading s \<and>
             domChildren s = mount @ [ContainerDiv]"
  using assms
  by (auto simp: renderPdf_def renderPdfBody_def pdfPreview_def reportError_def constructor_def)

theorem failed_open_is_reported_witness:
  "windowDefined exampleHost \<and> reader exampleHost = ReaderResult \<and>
   optDom exampleOptions = Some [] \<and>
   (\<exists>s. renderPdf exampleEnv exampleHost (GetDocumentRejects ''Invalid PDF structure'')
          exampleOptions = Some (Instance s) \<and>
        map message (errorLog s) = [Some ''Invalid PDF structure'', Some ''Failed to render PDF''] \<and>
        pageContainer s = [] \<and> domChildren s = [ContainerDiv])"
  using failed_open_is_reported [of "GetDocumentRejects ''Invalid PDF structure''"
      "''Invalid PDF structure''" exampleHost exampleOptions "[]" exampleEnv]
  by (auto simp: exampleHost_def exampleOptions_def)

text \<open>
  The claim as stated leaves the mount element empty. Nothing removes the container
  of the constructor: an empty mount element holds it after the failure.
\<close>

theorem failed_open_leaves_container:
  "map_option (domChildren \<circ> snd)
     (pdfPreview exampleEnv (GetDocumentRejects ''Invalid PDF structure'')
        (constructor [] exampleOptions)) = Some [ContainerDiv]"
  by (simp add: eval_defs)

subsection \<open>C10: a failed page is counted as rendered\<close>

text \<open>
  C10. A single-page step that starts with the loading flag clear and pages left
  moves the cursor to the page it requested, whatever the result of the render.
  No scroll or intersection event that follows, up to the next navigation,
  requests that page again.
\<close>

theorem failed_page_counted_as_rendered:
  assumes "\<not> isLoading s" and "pageNumber s < total s"
      and "\<forall>x \<in> set evs. \<not> isNavigate (snd x)"
  shows "pageNumber (renderNextPage e s) = pageNumber s + 1 \<and>
         requests (renderNextPage e s) = requests s @ [pageNumber s + 1] \<and>
         (\<exists>new. requests (run (renderNextPage e s) evs) = requests (renderNextPage e s) @ new \<and>
                pageNumber s + 1 \<notin> set new)"
proof -
  obtain new where "requests (run (renderNextPage e s) evs) = requests (renderNextPage e s) @ new"
    and "\<forall>p \<in> set new. pageNumber (renderNextPage e s) < p"
    using run_requests [OF assms(3), of "renderNextPage e s"] by blast
  with assms(1,2) show ?thesis
    by (auto simp: renderNextPage_run)
qed

theorem failed_page_counted_as_rendered_witness:
  "\<not> isLoading exampleLoaded \<and> pageNumber exampleLoaded < total exampleLoaded \<and>
   list_all (\<lambda>x. \<not> isNavigate (snd x)) exampleScrolls \<and>
   \<not> success (fst (getPdfPage exampleEnv (exampleLoaded\<lparr>isLoading := True\<rparr>) 1)) \<and>
   pageNumber (renderNextPage exampleEnv exampleLoaded) = 1 \<and>
   requests (renderNextPage exampleEnv exampleLoaded) = [1] \<and>
   requests (run (renderNextPage exampleEnv exampleLoaded) exampleScrolls) = [1] @ [2, 3] \<and>
   (1::int) \<notin> set [2, 3]"
proof -
  have a: "\<not> isLoading exampleLoaded" "pageNumber exampleLoaded < total exampleLoaded"
    by (simp_all add: eval_defs)
  have b: "\<forall>x \<in> set exampleScrolls. \<not> isNavigate (snd x)"
    by (simp add: exampleScrolls_def)
  have c: "requests (run (renderNextPage exampleEnv exampleLoaded) exampleScrolls) = [1, 2, 3]"
    by (simp add: exampleScrolls_def eval_defs)
  have d: "\<not> success (fst (getPdfPage exampleEnv (exampleLoaded\<lparr>isLoading := True\<rparr>) 1))"
    by (simp add: eval_defs)
  from b have b': "list_all (\<lambda>x. \<not> isNavigate (snd x)) exampleScrolls"
    by (simp add: list_all_iff)
  from failed_page_counted_as_rendered [OF a b, of exampleEnv] a b' c d
  show ?thesis by (simp add: eval_defs)
qed

end
